theory Spec2Isabelle
  imports Main "HOL-Library.Word"
begin

section \<open>Data model\<close>

text \<open>
  The replication server of \<^verbatim>\<open>src/ReplServer.cpp\<close> works on a database of
  drone plots (\<^verbatim>\<open>DronePlotDB\<close>, a \<^verbatim>\<open>std::list<DronePlot>\<close>).
  The declarations of \<^verbatim>\<open>DronePlot\<close> and \<^verbatim>\<open>DronePlotDB\<close>
  (\<^verbatim>\<open>DronePlotDB.h\<close>) and of the queue manager are not among the sources, so
  the parts of them the server uses are modelled from the specification and marked so.
\<close>

type_synonym byte = "8 word"

text \<open>
  Modelled from the spec: the class \<^verbatim>\<open>DronePlot\<close> is missing. Section 3 gives an
  Observation the fields \<open>subject_id\<close>, \<open>node_id\<close>, \<open>timestamp\<close> (an integer),
  \<open>latitude\<close>, \<open>longitude\<close> and the replicated-pending flag; the code reads them as
  \<^verbatim>\<open>drone_id\<close>, \<^verbatim>\<open>node_id\<close>, \<^verbatim>\<open>timestamp\<close>, \<^verbatim>\<open>latitude\<close>,
  \<^verbatim>\<open>longitude\<close> and the flag \<^verbatim>\<open>DBFLAG_NEW\<close>. Node ids are unsigned and only
  compared and sorted, so they are naturals. Coordinates are fixed-point values compared
  with \<^verbatim>\<open>==\<close>, so they are integers. The times of the server
  are \<^verbatim>\<open>time_t\<close> values, 64 bits wide and signed; a timestamp is an integer of
  that range (\<open>time_t_range\<close> below), and the arithmetic of the code on timestamps is
  written out with its width (\<open>to_int\<close> and \<open>to_time\<close> below).
\<close>

record DronePlot =
  drone_id :: nat
  node_id :: nat
  timestamp :: int
  latitude :: int
  longitude :: int
  dbflag_new :: bool

type_synonym plotdb = "DronePlot list"

text \<open>
  Every \<^verbatim>\<open>throw std::runtime_error\<close> of the source is an error value, named as
  the specification names it; an index past the end of a vector is \<open>OutOfBounds\<close>.
\<close>

datatype error =
    TruncatedBatch  \<comment> \<open>"Not enough data passed into addReplDronePlots"\<close>
  | MisalignedBatch \<comment> \<open>"Data passed into addReplDronePlots was not the right multiple of DronePlot size"\<close>
  | MalformedBatch  \<comment> \<open>"Issue with marshalling!"\<close>
  | OutOfBounds     \<comment> \<open>a read past the end of a \<^verbatim>\<open>std::vector\<close>\<close>

text \<open>
  The wire codec of a plot (\<^verbatim>\<open>DronePlot::getDataSize\<close>, \<^verbatim>\<open>serialize\<close>,
  \<^verbatim>\<open>deserialize\<close>) is missing from the sources and is a parameter of the model.
\<close>

record codec =
  getDataSize :: nat
  serialize :: "DronePlot \<Rightarrow> byte list"
  deserialize :: "byte list \<Rightarrow> DronePlot"

text \<open>The state of the server that the modelled functions read and write.\<close>

record ReplServer =
  plotdb :: plotdb
  last_repl :: int
  outbox :: "byte list list" \<comment> \<open>the payloads handed to \<^verbatim>\<open>_queue.sendToAll\<close>, oldest first\<close>


section \<open>Reconciliation\<close>

text \<open>
  The offsets are C++ \<^verbatim>\<open>int\<close>s (\<^verbatim>\<open>int offset\<close>, \<^verbatim>\<open>std::vector<int>\<close>),
  32 bits wide as the server assumes of \<^verbatim>\<open>unsigned int\<close> when it reads the count of
  a batch. \<open>to_int\<close> is the conversion of a difference of timestamps to that type.
\<close>

definition to_int :: "int \<Rightarrow> int" where
  "to_int d = (d + 2147483648) mod 4294967296 - 2147483648"

text \<open>
  The sum of a timestamp and an offset (line 337) is taken in the type of the timestamp:
  \<open>to_time\<close> is the value of a sum in that type, the 64 bits of \<^verbatim>\<open>time_t\<close> with
  wrap-around. A difference of two timestamps is only ever used converted to
  \<^verbatim>\<open>int\<close>, and \<open>to_int\<close> of a difference is the same before and after
  \<open>to_time\<close> (\<open>to_int_to_time\<close> below), so the difference in \<^verbatim>\<open>offset_aux\<close>
  needs no \<open>to_time\<close> of its own.
\<close>

definition to_time :: "int \<Rightarrow> int" where
  "to_time t = (t + 9223372036854775808) mod 18446744073709551616 - 9223372036854775808"

definition time_t_range :: "int \<Rightarrow> bool" where
  "time_t_range t \<longleftrightarrow> - 9223372036854775808 \<le> t \<and> t < 9223372036854775808"

text \<open>
  Modelled from the spec: \<^verbatim>\<open>DronePlotDB::sortByTime\<close> is missing; it is the
  in-place stable sort of the store, ascending by timestamp.
\<close>

definition sortByTime :: "plotdb \<Rightarrow> plotdb" where
  "sortByTime db = sort_key timestamp db"

text \<open>
  Modelled from the spec: \<^verbatim>\<open>DronePlotDB::erase\<close> is missing; it removes the record
  at a position and leaves the others in place.
\<close>

definition erase :: "nat \<Rightarrow> plotdb \<Rightarrow> plotdb" where
  "erase j db = take j db @ drop (Suc j) db"

text \<open>\<^verbatim>\<open>get_node_count\<close>: the loop over the database, given the tracker so far.\<close>

fun get_node_count :: "plotdb \<Rightarrow> nat list \<Rightarrow> nat list" where
  "get_node_count [] tracker = tracker"
| "get_node_count (p # ps) tracker =
     get_node_count ps
       (if count_list tracker (node_id p) = 0 then tracker @ [node_id p] else tracker)"

text \<open>The test of line 304: \<open>q\<close> is a record of the largest node at the place of \<open>p\<close>.\<close>

definition is_dup :: "nat \<Rightarrow> DronePlot \<Rightarrow> DronePlot \<Rightarrow> bool" where
  "is_dup largest_id p q \<longleftrightarrow>
     latitude q = latitude p \<and> longitude q = longitude p \<and> node_id q = largest_id"

text \<open>
  The inner loop of \<^verbatim>\<open>offset_aux\<close> over the records after \<open>p\<close>: the first duplicate
  and the records after \<open>p\<close> without it, as \<^verbatim>\<open>_plotdb.erase(dbitr2)\<close> leaves them,
  or \<open>None\<close> when the loop runs to the end.
\<close>

fun inner_scan :: "nat \<Rightarrow> DronePlot \<Rightarrow> plotdb \<Rightarrow> (DronePlot \<times> plotdb) option" where
  "inner_scan largest_id p [] = None"
| "inner_scan largest_id p (q # qs) =
     (if is_dup largest_id p q then Some (q, qs)
      else (case inner_scan largest_id p qs of
              None \<Rightarrow> None
            | Some (d, qs') \<Rightarrow> Some (d, q # qs')))"

text \<open>\<^verbatim>\<open>offset_aux\<close>: the offset and the database after the call.\<close>

fun offset_aux :: "nat \<Rightarrow> nat \<Rightarrow> plotdb \<Rightarrow> int \<times> plotdb" where
  "offset_aux input_id largest_id [] = (0, [])"
| "offset_aux input_id largest_id (p # ps) =
     (if node_id p = input_id then
        (case inner_scan largest_id p ps of
           Some (q, ps') \<Rightarrow> (to_int (timestamp q - timestamp p), p # ps')
         | None \<Rightarrow>
             (case offset_aux input_id largest_id ps of (offset, ps') \<Rightarrow> (offset, p # ps')))
      else
        (case offset_aux input_id largest_id ps of (offset, ps') \<Rightarrow> (offset, p # ps')))"

text \<open>The loop of \<^verbatim>\<open>generate_offsets\<close> over the tracker.\<close>

fun offsets_loop :: "nat \<Rightarrow> nat list \<Rightarrow> int list \<Rightarrow> plotdb \<Rightarrow> int list \<times> plotdb" where
  "offsets_loop largest_id [] offsets db = (offsets, db)"
| "offsets_loop largest_id (n # ns) offsets db =
     (if n = largest_id then (offsets, db)
      else (case offset_aux n largest_id db of
              (offset, db') \<Rightarrow> offsets_loop largest_id ns (offsets @ [offset]) db'))"

text \<open>
  \<^verbatim>\<open>generate_offsets\<close>. On an empty tracker \<^verbatim>\<open>tracker.size()-1\<close> wraps around
  to the largest \<^verbatim>\<open>size_t\<close> and \<^verbatim>\<open>tracker[...]\<close> reads past the end.
\<close>

definition generate_offsets ::
    "int list \<Rightarrow> nat list \<Rightarrow> plotdb \<Rightarrow> error + (int list \<times> plotdb)" where
  "generate_offsets offsets tracker db =
     (if length tracker = 0 then Inl OutOfBounds
      else Inr (offsets_loop (tracker ! (length tracker - 1)) tracker offsets db))"

text \<open>The loop of lines 330 to 336: the position of a node id in the tracker.\<close>

fun tracker_index :: "nat \<Rightarrow> nat list \<Rightarrow> nat" where
  "tracker_index x [] = 0"
| "tracker_index x (n # ns) = (if x = n then 0 else Suc (tracker_index x ns))"

text \<open>The loop of \<^verbatim>\<open>correct_timestamps\<close> over the database.\<close>

fun correct_loop :: "int list \<Rightarrow> nat list \<Rightarrow> nat \<Rightarrow> plotdb \<Rightarrow> error + plotdb" where
  "correct_loop offsets tracker largest_id [] = Inr []"
| "correct_loop offsets tracker largest_id (p # ps) =
     (if node_id p \<noteq> largest_id then
        (let i = tracker_index (node_id p) tracker in
         if i < length offsets then
           (case correct_loop offsets tracker largest_id ps of
              Inl e \<Rightarrow> Inl e
            | Inr ps' \<Rightarrow> Inr (p\<lparr>timestamp := to_time (timestamp p + offsets ! i)\<rparr> # ps'))
         else Inl OutOfBounds)
      else
        (case correct_loop offsets tracker largest_id ps of
           Inl e \<Rightarrow> Inl e
         | Inr ps' \<Rightarrow> Inr (p # ps')))"

definition correct_timestamps :: "int list \<Rightarrow> nat list \<Rightarrow> plotdb \<Rightarrow> error + plotdb" where
  "correct_timestamps offsets tracker db =
     (if length tracker = 0 then Inl OutOfBounds
      else correct_loop offsets tracker (tracker ! (length tracker - 1)) db)"

text \<open>\<^verbatim>\<open>eventual_consistency\<close>: the database after the call, or the error.\<close>

definition eventual_consistency :: "plotdb \<Rightarrow> error + plotdb" where
  "eventual_consistency db =
     (let db1 = sortByTime db;
          tracker = sort (get_node_count db1 [])
      in case generate_offsets [] tracker db1 of
           Inl e \<Rightarrow> Inl e
         | Inr (offsets, db2) \<Rightarrow> correct_timestamps offsets tracker db2)"

text \<open>The number of records of a node in a database.\<close>

definition count_node :: "nat \<Rightarrow> plotdb \<Rightarrow> nat" where
  "count_node n db = length (filter (\<lambda>p. node_id p = n) db)"

section \<open>Ingestion and broadcast\<close>

text \<open>
  Modelled from the spec: \<^verbatim>\<open>DronePlotDB::addPlot\<close> is missing; it appends a new
  record made of the five values, and a record is created with the replicated-pending
  flag set (section 3).
\<close>

definition new_plot :: "nat \<Rightarrow> nat \<Rightarrow> int \<Rightarrow> int \<Rightarrow> int \<Rightarrow> DronePlot" where
  "new_plot d n t la lo =
     \<lparr>drone_id = d, node_id = n, timestamp = t, latitude = la, longitude = lo,
      dbflag_new = True\<rparr>"

definition addPlot :: "nat \<Rightarrow> nat \<Rightarrow> int \<Rightarrow> int \<Rightarrow> int \<Rightarrow> plotdb \<Rightarrow> plotdb" where
  "addPlot d n t la lo db = db @ [new_plot d n t la lo]"

text \<open>
  \<^verbatim>\<open>addSingleDronePlot\<close>: the bytes of one record are decoded into a temporary
  plot, whose five values are added to the database.
\<close>

definition addSingleDronePlot :: "codec \<Rightarrow> byte list \<Rightarrow> plotdb \<Rightarrow> plotdb" where
  "addSingleDronePlot c data db =
     (let tmp_plot = deserialize c data
      in addPlot (drone_id tmp_plot) (node_id tmp_plot) (timestamp tmp_plot)
           (latitude tmp_plot) (longitude tmp_plot) db)"

text \<open>
  The count of a batch is an \<^verbatim>\<open>unsigned int\<close> read from and written to the first
  four bytes in the byte order of the host, here the least significant byte first.
\<close>

definition read_count :: "byte list \<Rightarrow> nat" where
  "read_count data =
     unat (data ! 0) + 256 * unat (data ! 1) + 65536 * unat (data ! 2)
       + 16777216 * unat (data ! 3)"

definition count_bytes :: "nat \<Rightarrow> byte list" where
  "count_bytes count =
     [of_nat count, of_nat (count div 256), of_nat (count div 65536),
      of_nat (count div 16777216)]"

text \<open>
  The loop of \<^verbatim>\<open>addReplDronePlots\<close>, with the iterations left to run and the bytes
  from \<^verbatim>\<open>dptr\<close> to the end of the payload. \<^verbatim>\<open>plot.assign(dptr, dptr + size)\<close>
  reads past the end of the payload when fewer bytes than one record are left.
\<close>

fun add_loop :: "codec \<Rightarrow> nat \<Rightarrow> byte list \<Rightarrow> plotdb \<Rightarrow> error option \<times> plotdb" where
  "add_loop c 0 rest db = (None, db)"
| "add_loop c (Suc k) rest db =
     (if length rest < getDataSize c then (Some OutOfBounds, db)
      else add_loop c k (drop (getDataSize c) rest)
             (addSingleDronePlot c (take (getDataSize c) rest) db))"

text \<open>
  \<^verbatim>\<open>addReplDronePlots\<close>: the error thrown, if any, and the database when the function
  returns or throws.
\<close>

definition addReplDronePlots :: "codec \<Rightarrow> byte list \<Rightarrow> plotdb \<Rightarrow> error option \<times> plotdb" where
  "addReplDronePlots c data db =
     (if length data < 4 then (Some TruncatedBatch, db)
      else if (length data - 4) mod getDataSize c \<noteq> 0 then (Some MisalignedBatch, db)
      else add_loop c (read_count data) (drop 4 data) db)"

text \<open>
  The loop of \<^verbatim>\<open>queueNewPlots\<close> over the database, with the bytes marshalled and
  the records counted so far. The count is an \<^verbatim>\<open>unsigned int\<close>; it counts records
  held in memory and is modelled as a natural number.
\<close>

fun scan_new ::
    "codec \<Rightarrow> plotdb \<Rightarrow> byte list \<Rightarrow> nat \<Rightarrow> error option \<times> plotdb \<times> byte list \<times> nat" where
  "scan_new c [] marshall_data count = (None, [], marshall_data, count)"
| "scan_new c (p # ps) marshall_data count =
     (case (if dbflag_new p
            then (p\<lparr>dbflag_new := False\<rparr>, marshall_data @ serialize c p, count + 1)
            else (p, marshall_data, count)) of
        (p', marshall_data', count') \<Rightarrow>
          if length marshall_data' mod getDataSize c \<noteq> 0
          then (Some MalformedBatch, p' # ps, marshall_data', count')
          else (case scan_new c ps marshall_data' count' of
                  (e, ps', md, n) \<Rightarrow> (e, p' # ps', md, n)))"

text \<open>\<^verbatim>\<open>queueNewPlots\<close>: the count returned or the error thrown, and the server after.\<close>

definition queueNewPlots :: "codec \<Rightarrow> ReplServer \<Rightarrow> (error + nat) \<times> ReplServer" where
  "queueNewPlots c s =
     (case scan_new c (plotdb s) [] 0 of
        (Some e, db', marshall_data, count) \<Rightarrow> (Inl e, s\<lparr>plotdb := db'\<rparr>)
      | (None, db', marshall_data, count) \<Rightarrow>
          if count = 0 then (Inr 0, s\<lparr>plotdb := db'\<rparr>)
          else (let marshall_data' = count_bytes count @ marshall_data
                in (Inr count,
                    s\<lparr>plotdb := db',
                      outbox := (if length marshall_data' > 0
                                 then outbox s @ [marshall_data'] else outbox s)\<rparr>)))"




section \<open>Predicates used to state the claims\<close>

text \<open>
  A match for node \<open>n\<close> in a database: a record of \<open>n\<close> at position \<open>i\<close> and, after
  it at position \<open>j\<close>, a record of the largest node at the same latitude and longitude.
\<close>

definition match_at :: "nat \<Rightarrow> nat \<Rightarrow> plotdb \<Rightarrow> nat \<Rightarrow> nat \<Rightarrow> bool" where
  "match_at n largest_id db i j \<longleftrightarrow>
     i < j \<and> j < length db \<and> node_id (db ! i) = n \<and> is_dup largest_id (db ! i) (db ! j)"

definition has_match :: "nat \<Rightarrow> nat \<Rightarrow> plotdb \<Rightarrow> bool" where
  "has_match n largest_id db \<longleftrightarrow>
     (\<exists>i\<in>{..<length db}. \<exists>j\<in>{..<length db}. match_at n largest_id db i j)"

text \<open>
  The first match met by a forward scan: the one with the least \<open>i\<close> and, for that \<open>i\<close>,
  the least \<open>j\<close>.
\<close>

definition first_match :: "nat \<Rightarrow> nat \<Rightarrow> plotdb \<Rightarrow> nat \<Rightarrow> nat \<Rightarrow> bool" where
  "first_match n largest_id db i j \<longleftrightarrow>
     match_at n largest_id db i j \<and>
     (\<forall>i'\<in>{..<length db}. \<forall>j'\<in>{..<length db}.
        match_at n largest_id db i' j' \<longrightarrow> i < i' \<or> (i = i' \<and> j \<le> j'))"

text \<open>
  The record that ingestion makes of slot \<open>i\<close> of the bytes \<open>rest\<close> that follow the
  count of a payload.
\<close>

definition decoded :: "codec \<Rightarrow> byte list \<Rightarrow> nat \<Rightarrow> DronePlot" where
  "decoded c rest i =
     (let tmp_plot = deserialize c (take (getDataSize c) (drop (i * getDataSize c) rest))
      in new_plot (drone_id tmp_plot) (node_id tmp_plot) (timestamp tmp_plot)
           (latitude tmp_plot) (longitude tmp_plot))"

text \<open>The contract of the codec: a record is marshalled into \<open>getDataSize\<close> bytes.\<close>

definition fixed_width :: "codec \<Rightarrow> bool" where
  "fixed_width c \<longleftrightarrow> 0 < getDataSize c \<and> (\<forall>p. length (serialize c p) = getDataSize c)"

text \<open>
  A codec for the examples: a record travels as two bytes, its node id and its
  timestamp.
\<close>

definition example_codec :: codec where
  "example_codec =
     \<lparr>getDataSize = 2,
      serialize = (\<lambda>p. [of_nat (node_id p), of_nat (nat (timestamp p))]),
      deserialize = (\<lambda>bs. \<lparr>drone_id = 0, node_id = unat (bs ! 0),
                              timestamp = int (unat (bs ! 1)), latitude = 0, longitude = 0,
                              dbflag_new = False\<rparr>)\<rparr>"

section \<open>Theorems\<close>

lemma to_int_small: "- 2147483648 \<le> d \<Longrightarrow> d < 2147483648 \<Longrightarrow> to_int d = d"
  by (simp add: to_int_def)

lemma to_time_small: "time_t_range t \<Longrightarrow> to_time t = t"
  by (simp add: to_time_def time_t_range_def)

lemma to_int_to_time: "to_int (to_time d) = to_int d"
proof -
  define q where "q = (d + 9223372036854775808) div 18446744073709551616"
  have "(d + 9223372036854775808) mod 18446744073709551616
        = (d + 9223372036854775808) - q * 18446744073709551616"
    unfolding q_def by (rule minus_div_mult_eq_mod [symmetric])
  then have t: "to_time d = d + (- q * 4294967296) * 4294967296"
    by (simp add: to_time_def)
  have "(d + (- q * 4294967296) * 4294967296 + 2147483648) mod 4294967296
        = (d + 2147483648 + (- q * 4294967296) * 4294967296) mod 4294967296"
    by (simp only: add.assoc add.commute add.left_commute)
  also have "\<dots> = (d + 2147483648) mod 4294967296"
    by (rule mod_mult_self1)
  finally show ?thesis unfolding to_int_def t by simp
qed

subsection \<open>The end-to-end scenario\<close>

text \<open>
  C1. A store of exactly two records, node 1 at timestamp 100 and node 2 (the largest id,
  the reference node) at timestamp 150, both at latitude 10 and longitude 20, in either
  order of insertion and with any drone ids and flags: reconciliation leaves one record,
  the one of node 1, with timestamp 150.
\<close>

theorem eventual_consistency_two_nodes:
  "eventual_consistency
     [\<lparr>drone_id = d1, node_id = 1, timestamp = 100, latitude = 10, longitude = 20, dbflag_new = f1\<rparr>,
      \<lparr>drone_id = d2, node_id = 2, timestamp = 150, latitude = 10, longitude = 20, dbflag_new = f2\<rparr>]
   = Inr [\<lparr>drone_id = d1, node_id = 1, timestamp = 150, latitude = 10, longitude = 20, dbflag_new = f1\<rparr>]
   \<and>
   eventual_consistency
     [\<lparr>drone_id = d2, node_id = 2, timestamp = 150, latitude = 10, longitude = 20, dbflag_new = f2\<rparr>,
      \<lparr>drone_id = d1, node_id = 1, timestamp = 100, latitude = 10, longitude = 20, dbflag_new = f1\<rparr>]
   = Inr [\<lparr>drone_id = d1, node_id = 1, timestamp = 150, latitude = 10, longitude = 20, dbflag_new = f1\<rparr>]"
  by (simp add: eventual_consistency_def sortByTime_def generate_offsets_def
      correct_timestamps_def is_dup_def to_int_def to_time_def)

subsection \<open>The scan for a duplicate\<close>


lemma inner_scan_None: "inner_scan L p qs = None \<longleftrightarrow> (\<forall>q\<in>set qs. \<not> is_dup L p q)"
  by (induction qs) (auto split: option.splits)

lemma erase_Cons_Suc: "erase (Suc k) (q # qs) = q # erase k qs"
  by (simp add: erase_def)

lemma erase_0: "erase 0 (q # qs) = qs"
  by (simp add: erase_def)

lemma inner_scan_first:
  "k < length qs \<Longrightarrow> is_dup L p (qs ! k) \<Longrightarrow> (\<forall>k'<k. \<not> is_dup L p (qs ! k'))
   \<Longrightarrow> inner_scan L p qs = Some (qs ! k, erase k qs)"
proof (induction qs arbitrary: k)
  case Nil
  then show ?case by simp
next
  case (Cons q qs)
  show ?case
  proof (cases k)
    case 0
    with Cons.prems show ?thesis by (simp add: erase_0)
  next
    case (Suc m)
    with Cons.prems have nq: "\<not> is_dup L p q" by auto
    have "\<forall>k'<m. \<not> is_dup L p (qs ! k')"
    proof (intro allI impI)
      fix k' assume "k' < m"
      then have "Suc k' < k" using Suc by simp
      with Cons.prems(3) have "\<not> is_dup L p ((q # qs) ! Suc k')" by blast
      then show "\<not> is_dup L p (qs ! k')" by simp
    qed
    with Cons.IH [of m] Cons.prems Suc
    have "inner_scan L p qs = Some (qs ! m, erase m qs)" by simp
    with nq Suc show ?thesis by (simp add: erase_Cons_Suc)
  qed
qed

lemma offset_aux_first_match:
  assumes "i < j" "j < length xs" "node_id (xs ! i) = n" "is_dup L (xs ! i) (xs ! j)"
    and "\<forall>i' j'. i' < j' \<and> j' < length xs \<and> node_id (xs ! i') = n \<and> is_dup L (xs ! i') (xs ! j')
        \<longrightarrow> i < i' \<or> (i = i' \<and> j \<le> j')"
  shows "offset_aux n L xs = (to_int (timestamp (xs ! j) - timestamp (xs ! i)), erase j xs)"
  using assms
proof (induction xs arbitrary: i j)
  case Nil
  then show ?case by simp
next
  case (Cons p ps)
  from Cons.prems(1) obtain m where j: "j = Suc m" by (cases j) auto
  show ?case
  proof (cases i)
    case 0
    have np: "node_id p = n" using Cons.prems(3) 0 by simp
    have m: "m < length ps" "is_dup L p (ps ! m)" using Cons.prems(2,4) 0 j by auto
    have "\<forall>k'<m. \<not> is_dup L p (ps ! k')"
    proof (intro allI impI notI)
      fix k' assume k: "k' < m" and d: "is_dup L p (ps ! k')"
      have "0 < Suc k' \<and> Suc k' < length (p # ps) \<and> node_id ((p # ps) ! 0) = n
            \<and> is_dup L ((p # ps) ! 0) ((p # ps) ! Suc k')"
        using k d m(1) np by simp
      with Cons.prems(5) have "i < 0 \<or> (i = 0 \<and> j \<le> Suc k')" by blast
      with j k show False by simp
    qed
    with m have "inner_scan L p ps = Some (ps ! m, erase m ps)"
      by (rule inner_scan_first)
    with np 0 j show ?thesis by (simp add: erase_Cons_Suc)
  next
    case (Suc i0)
    have hd: "node_id p = n \<Longrightarrow> inner_scan L p ps = None"
    proof -
      assume np: "node_id p = n"
      have "\<forall>q\<in>set ps. \<not> is_dup L p q"
      proof (intro ballI notI)
        fix q assume "q \<in> set ps" and d: "is_dup L p q"
        then obtain j' where j': "j' < length ps" "q = ps ! j'" by (auto simp: in_set_conv_nth)
        then have "0 < Suc j' \<and> Suc j' < length (p # ps) \<and> node_id ((p # ps) ! 0) = n
            \<and> is_dup L ((p # ps) ! 0) ((p # ps) ! Suc j')"
          using np d by simp
        with Cons.prems(5) have "i < 0 \<or> (i = 0 \<and> j \<le> Suc j')" by blast
        with Suc show False by simp
      qed
      then show ?thesis by (simp add: inner_scan_None)
    qed
    have a: "i0 < m" "m < length ps" "node_id (ps ! i0) = n" "is_dup L (ps ! i0) (ps ! m)"
      using Cons.prems(1-4) Suc j by auto
    have b: "\<forall>i' j'. i' < j' \<and> j' < length ps \<and> node_id (ps ! i') = n \<and> is_dup L (ps ! i') (ps ! j')
        \<longrightarrow> i0 < i' \<or> (i0 = i' \<and> m \<le> j')"
    proof (intro allI impI)
      fix i' j'
      assume "i' < j' \<and> j' < length ps \<and> node_id (ps ! i') = n \<and> is_dup L (ps ! i') (ps ! j')"
      then have "Suc i' < Suc j' \<and> Suc j' < length (p # ps) \<and> node_id ((p # ps) ! Suc i') = n
            \<and> is_dup L ((p # ps) ! Suc i') ((p # ps) ! Suc j')" by simp
      with Cons.prems(5) have "i < Suc i' \<or> (i = Suc i' \<and> j \<le> Suc j')" by blast
      with Suc j show "i0 < i' \<or> (i0 = i' \<and> m \<le> j')" by simp
    qed
    from Cons.IH [OF a b]
    have "offset_aux n L ps = (to_int (timestamp (ps ! m) - timestamp (ps ! i0)), erase m ps)" .
    with hd Suc j show ?thesis by (simp add: erase_Cons_Suc)
  qed
qed

lemma offset_aux_no_match:
  "\<not> has_match n L xs \<Longrightarrow> offset_aux n L xs = (0, xs)"
proof (induction xs)
  case Nil
  then show ?case by simp
next
  case (Cons p ps)
  have nm: "\<And>i j. i < j \<Longrightarrow> j < Suc (length ps) \<Longrightarrow> node_id ((p # ps) ! i) = n
     \<Longrightarrow> \<not> is_dup L ((p # ps) ! i) ((p # ps) ! j)"
    using Cons.prems unfolding has_match_def match_at_def by fastforce
  have "\<not> has_match n L ps"
    unfolding has_match_def match_at_def
  proof (clarsimp)
    fix i j assume a: "i < j" "j < length ps" "n = node_id (ps ! i)" "is_dup L (ps ! i) (ps ! j)"
    from nm [of "Suc i" "Suc j"] a show False by simp
  qed
  then have tl: "offset_aux n L ps = (0, ps)" by (rule Cons.IH)
  have hd: "node_id p = n \<Longrightarrow> inner_scan L p ps = None"
  proof -
    assume np: "node_id p = n"
    have "\<forall>q\<in>set ps. \<not> is_dup L p q"
    proof
      fix q assume "q \<in> set ps"
      then obtain j where j: "j < length ps" "q = ps ! j" by (auto simp: in_set_conv_nth)
      from nm [of 0 "Suc j"] j np show "\<not> is_dup L p q" by simp
    qed
    then show ?thesis by (simp add: inner_scan_None)
  qed
  from tl hd show ?case by simp
qed

subsection \<open>A node without a match\<close>

text \<open>
  C3. When no record of the reference node with the same latitude and longitude stands
  after a record of node \<open>n\<close> in the store, \<^verbatim>\<open>offset_aux\<close> returns 0 and the store
  is the same afterwards: no record is removed or changed.
\<close>

theorem offset_aux_without_match:
  "\<not> has_match n largest_id db \<Longrightarrow> offset_aux n largest_id db = (0, db)"
  by (rule offset_aux_no_match)

theorem offset_aux_without_match_witness:
  "\<not> has_match 1 2 [new_plot 7 2 50 1 1, new_plot 7 1 100 1 1, new_plot 8 2 150 2 2,
                     new_plot 8 1 200 2 2, new_plot 9 1 300 3 3]
   \<and> offset_aux 1 2 [new_plot 7 2 50 1 1, new_plot 7 1 100 1 1, new_plot 8 2 150 2 2,
                     new_plot 8 1 200 2 2, new_plot 9 1 300 3 3]
     = (0, [new_plot 7 2 50 1 1, new_plot 7 1 100 1 1, new_plot 8 2 150 2 2,
            new_plot 8 1 200 2 2, new_plot 9 1 300 3 3])"
proof -
  have h: "\<not> has_match 1 2 [new_plot 7 2 50 1 1, new_plot 7 1 100 1 1, new_plot 8 2 150 2 2,
                     new_plot 8 1 200 2 2, new_plot 9 1 300 3 3]"
    by (simp add: has_match_def match_at_def is_dup_def new_plot_def lessThan_Suc numeral_eq_Suc)
  from h offset_aux_without_match [OF h] show ?thesis by (rule conjI)
qed

subsection \<open>One record of the node and one of the reference node\<close>

text \<open>
  C2, amended. In a store with one record of node \<open>n\<close>, at position \<open>i\<close>, and one record
  of the reference node, after it at position \<open>j\<close> and with the same latitude and
  longitude, \<^verbatim>\<open>offset_aux\<close> returns the timestamp of the reference record minus the
  timestamp of the other record, converted to the \<^verbatim>\<open>int\<close> of the offset, and the store
  afterwards is the store without the reference record, every other record in place. The
  value returned is exactly the difference when the difference is at least \<open>-2^31\<close> and
  less than \<open>2^31\<close>.
\<close>

theorem offset_aux_single_pair:
  assumes "i < j" and "j < length db"
    and "node_id (db ! i) = n" and "node_id (db ! j) = largest_id"
    and "latitude (db ! j) = latitude (db ! i)" and "longitude (db ! j) = longitude (db ! i)"
    and "\<forall>k<length db. node_id (db ! k) = n \<longrightarrow> k = i"
    and "\<forall>k<length db. node_id (db ! k) = largest_id \<longrightarrow> k = j"
  shows "offset_aux n largest_id db
           = (to_int (timestamp (db ! j) - timestamp (db ! i)), erase j db)
         \<and> (- 2147483648 \<le> timestamp (db ! j) - timestamp (db ! i)
            \<and> timestamp (db ! j) - timestamp (db ! i) < 2147483648
            \<longrightarrow> offset_aux n largest_id db
                  = (timestamp (db ! j) - timestamp (db ! i), erase j db))"
proof -
  have d: "is_dup largest_id (db ! i) (db ! j)"
    using assms(4-6) by (simp add: is_dup_def)
  have f: "\<forall>i' j'. i' < j' \<and> j' < length db \<and> node_id (db ! i') = n
             \<and> is_dup largest_id (db ! i') (db ! j') \<longrightarrow> i < i' \<or> (i = i' \<and> j \<le> j')"
  proof (intro allI impI)
    fix i' j'
    assume a: "i' < j' \<and> j' < length db \<and> node_id (db ! i') = n
             \<and> is_dup largest_id (db ! i') (db ! j')"
    then have "i' = i" using assms(7) by simp
    moreover from a have "j' = j" using assms(8) by (simp add: is_dup_def)
    ultimately show "i < i' \<or> (i = i' \<and> j \<le> j')" by simp
  qed
  have e: "offset_aux n largest_id db
           = (to_int (timestamp (db ! j) - timestamp (db ! i)), erase j db)"
    using assms(1-3) d f by (rule offset_aux_first_match)
  then show ?thesis by (simp add: to_int_small)
qed

theorem offset_aux_single_pair_witness:
  "offset_aux 1 2 [new_plot 7 1 100 10 20, new_plot 7 2 150 10 20]
     = (50, [new_plot 7 1 100 10 20])"
proof -
  let ?db = "[new_plot 7 1 100 10 20, new_plot 7 2 150 10 20]"
  have a: "\<forall>k<length ?db. node_id (?db ! k) = 1 \<longrightarrow> k = 0"
    by (simp add: new_plot_def less_Suc_eq)
  have b: "\<forall>k<length ?db. node_id (?db ! k) = 2 \<longrightarrow> k = 1"
    by (simp add: new_plot_def less_Suc_eq)
  have "offset_aux 1 2 ?db = (to_int (timestamp (?db ! 1) - timestamp (?db ! 0)), erase 1 ?db)"
    using offset_aux_single_pair [of 0 1 ?db 1 2, OF _ _ _ _ _ _ a b]
    by (simp add: new_plot_def)
  then show ?thesis by (simp add: new_plot_def to_int_def erase_def)
qed

text \<open>
  The claim as stated, without the bound on the difference, fails: with timestamps \<open>-1\<close>
  and \<open>2^31 - 1\<close> the difference is \<open>2^31\<close> and the offset returned is \<open>-2^31\<close>.
\<close>

theorem offset_aux_exact_counterexample:
  "offset_aux 1 2 [new_plot 7 1 (- 1) 10 20, new_plot 7 2 2147483647 10 20]
     = (- 2147483648, [new_plot 7 1 (- 1) 10 20])
   \<and> timestamp (new_plot 7 2 2147483647 10 20) - timestamp (new_plot 7 1 (- 1) 10 20)
     = 2147483648"
  by (simp add: new_plot_def is_dup_def to_int_def)

subsection \<open>The node tracker and the database after a scan\<close>

lemma set_get_node_count:
  "set (get_node_count db tracker) = set tracker \<union> node_id ` set db"
  by (induction db arbitrary: tracker) (auto simp: count_list_0_iff)

lemma distinct_get_node_count:
  "distinct tracker \<Longrightarrow> distinct (get_node_count db tracker)"
  by (induction db arbitrary: tracker) (auto simp: count_list_0_iff)

lemma set_sortByTime: "set (sortByTime db) = set db"
  by (simp add: sortByTime_def)

lemma length_sortByTime: "length (sortByTime db) = length db"
  by (simp add: sortByTime_def)

lemma sorted_tracker:
  "sort (get_node_count (sortByTime db) []) = sorted_list_of_set (node_id ` set db)"
proof -
  have "sorted (sort (get_node_count (sortByTime db) []))" by simp
  moreover have "distinct (sort (get_node_count (sortByTime db) []))"
    by (simp add: distinct_get_node_count)
  moreover have "set (sort (get_node_count (sortByTime db) [])) = node_id ` set db"
    by (simp add: set_get_node_count set_sortByTime)
  ultimately show ?thesis
    by (metis List.finite_set finite_imageI sorted_list_of_set.idem_if_sorted_distinct)
qed

lemma tracker_Nil_iff:
  "sort (get_node_count (sortByTime db) []) = [] \<longleftrightarrow> db = []"
proof -
  have "set (sort (get_node_count (sortByTime db) [])) = node_id ` set db"
    by (simp add: set_get_node_count set_sortByTime)
  then show ?thesis by (metis image_is_empty set_empty)
qed

lemma first_match_exists:
  assumes "has_match n L db"
  shows "\<exists>i j. first_match n L db i j"
proof -
  from assms obtain a b where ab: "match_at n L db a b"
    by (auto simp: has_match_def)
  define i where "i = (LEAST i. \<exists>j. match_at n L db i j)"
  have ex: "\<exists>j. match_at n L db i j"
    unfolding i_def by (rule LeastI [of "\<lambda>i. \<exists>j. match_at n L db i j" a]) (use ab in blast)
  define j where "j = (LEAST j. match_at n L db i j)"
  have m: "match_at n L db i j"
    unfolding j_def using ex by (auto intro: LeastI)
  have "i < i' \<or> (i = i' \<and> j \<le> j')" if "match_at n L db i' j'" for i' j'
  proof -
    have le: "i \<le> i'" unfolding i_def using that by (auto intro: Least_le)
    show ?thesis
    proof (cases "i = i'")
      case True
      with that have "j \<le> j'" unfolding j_def by (auto intro: Least_le)
      with True show ?thesis by simp
    next
      case False
      with le show ?thesis by simp
    qed
  qed
  with m have "first_match n L db i j" by (simp add: first_match_def)
  then show ?thesis by blast
qed

lemma offset_aux_at_first_match:
  assumes "first_match n L db i j"
  shows "offset_aux n L db = (to_int (timestamp (db ! j) - timestamp (db ! i)), erase j db)"
proof -
  from assms have m: "i < j" "j < length db" "node_id (db ! i) = n" "is_dup L (db ! i) (db ! j)"
    by (simp_all add: first_match_def match_at_def)
  have "\<forall>i' j'. i' < j' \<and> j' < length db \<and> node_id (db ! i') = n \<and> is_dup L (db ! i') (db ! j')
        \<longrightarrow> i < i' \<or> (i = i' \<and> j \<le> j')"
  proof (intro allI impI)
    fix i' j'
    assume a: "i' < j' \<and> j' < length db \<and> node_id (db ! i') = n \<and> is_dup L (db ! i') (db ! j')"
    then have "match_at n L db i' j'" by (simp add: match_at_def)
    moreover from a have "i' \<in> {..<length db}" "j' \<in> {..<length db}" by auto
    ultimately show "i < i' \<or> (i = i' \<and> j \<le> j')"
      using assms unfolding first_match_def by blast
  qed
  with m show ?thesis by (rule offset_aux_first_match)
qed

lemma offset_aux_cases:
  "offset_aux n L db = (0, db) \<or>
   (\<exists>j<length db. node_id (db ! j) = L \<and> snd (offset_aux n L db) = erase j db)"
proof (cases "has_match n L db")
  case False
  then show ?thesis by (simp add: offset_aux_no_match)
next
  case True
  then obtain i j where f: "first_match n L db i j"
    using first_match_exists by blast
  then have "j < length db" "node_id (db ! j) = L"
    by (simp_all add: first_match_def match_at_def is_dup_def)
  with offset_aux_at_first_match [OF f] show ?thesis by auto
qed

lemma set_erase: "set (erase j db) \<subseteq> set db"
  by (auto simp: erase_def dest: in_set_takeD in_set_dropD)

lemma length_erase: "j < length db \<Longrightarrow> length (erase j db) = length db - 1"
  by (auto simp: erase_def)

lemma set_offset_aux: "set (snd (offset_aux n L db)) \<subseteq> set db"
  using offset_aux_cases [of n L db] set_erase by fastforce

subsection \<open>The loops of offset generation and of timestamp correction\<close>

lemma offsets_loop_length:
  "largest_id \<notin> set ns \<Longrightarrow>
   length (fst (offsets_loop largest_id (ns @ [largest_id]) offsets db)) = length offsets + length ns"
proof (induction ns arbitrary: offsets db)
  case Nil
  then show ?case by simp
next
  case (Cons a ns)
  then show ?case by (simp split: prod.splits)
qed

lemma offsets_loop_set:
  "set (snd (offsets_loop largest_id ns offsets db)) \<subseteq> set db"
proof (induction ns arbitrary: offsets db)
  case Nil
  then show ?case by simp
next
  case (Cons a ns)
  show ?case
  proof (cases "a = largest_id")
    case True
    then show ?thesis by simp
  next
    case False
    obtain off db' where o: "offset_aux a largest_id db = (off, db')" by (cases "offset_aux a largest_id db")
    then have "set db' \<subseteq> set db" using set_offset_aux [of a largest_id db] by simp
    moreover have "set (snd (offsets_loop largest_id ns (offsets @ [off]) db')) \<subseteq> set db'"
      by (rule Cons.IH)
    ultimately show ?thesis using False o by auto
  qed
qed

lemma tracker_index_less:
  "x \<in> set ns \<Longrightarrow> tracker_index x ns < length ns"
  by (induction ns) auto

lemma tracker_index_nth:
  "x \<in> set ns \<Longrightarrow> ns ! tracker_index x ns = x"
  by (induction ns) auto

lemma tracker_index_append:
  "x \<in> set ns \<Longrightarrow> tracker_index x (ns @ ms) = tracker_index x ns"
  by (induction ns) auto

lemma correct_loop_map:
  "(\<forall>p\<in>set db. node_id p \<noteq> largest_id \<longrightarrow> tracker_index (node_id p) tracker < length offsets)
   \<Longrightarrow> correct_loop offsets tracker largest_id db
       = Inr (map (\<lambda>p. if node_id p \<noteq> largest_id
                       then p\<lparr>timestamp := to_time (timestamp p + offsets ! tracker_index (node_id p) tracker)\<rparr>
                       else p) db)"
  by (induction db) (auto simp: Let_def)

lemma sorted_le_last:
  "sorted xs \<Longrightarrow> x \<in> set xs \<Longrightarrow> x \<le> last (xs :: nat list)"
proof (induction xs)
  case Nil
  then show ?case by simp
next
  case (Cons a xs)
  then show ?case by (cases xs) auto
qed

lemma tracker_snoc:
  assumes "db \<noteq> []"
  shows "\<exists>ns. sort (get_node_count (sortByTime db) []) = ns @ [Max (node_id ` set db)]
            \<and> Max (node_id ` set db) \<notin> set ns
            \<and> set ns = node_id ` set db - {Max (node_id ` set db)}
            \<and> sorted ns \<and> distinct ns"
proof -
  define t where "t = sort (get_node_count (sortByTime db) [])"
  define S where "S = node_id ` set db"
  have sd: "sorted t" "distinct t" "set t = S"
    by (simp_all add: t_def S_def distinct_get_node_count set_get_node_count set_sortByTime)
  have ne: "t \<noteq> []" using assms by (simp add: t_def tracker_Nil_iff)
  have fin: "finite S" by (simp add: S_def)
  have "last t \<in> S" using ne sd(3) last_in_set by blast
  moreover have "\<And>y. y \<in> S \<Longrightarrow> y \<le> last t" using sd(1,3) sorted_le_last by blast
  ultimately have "Max S = last t" using fin by (intro Max_eqI)
  then have e: "t = butlast t @ [Max S]" using ne by simp
  have d: "distinct (butlast t @ [Max S])" using sd(2) e by simp
  then have n: "Max S \<notin> set (butlast t)" by simp
  have "set (butlast t) \<union> {Max S} = S" using sd(3) e by (metis set_append list.set(1) list.set(2))
  with n have s: "set (butlast t) = S - {Max S}" by auto
  have "sorted (butlast t)" using sd(1) e by (metis sorted_append)
  moreover have "distinct (butlast t)" using d by simp
  ultimately show ?thesis using e n s unfolding t_def S_def by blast
qed

subsection \<open>Reconciliation of a store with records\<close>

lemma reconcile_nonempty:
  assumes ne: "db \<noteq> []"
    and tr: "tracker = sort (get_node_count (sortByTime db) [])"
  shows "\<exists>offsets db2 db3.
      generate_offsets [] tracker (sortByTime db) = Inr (offsets, db2)
    \<and> correct_timestamps offsets tracker db2 = Inr db3
    \<and> eventual_consistency db = Inr db3
    \<and> tracker = sorted_list_of_set (node_id ` set db)
    \<and> last tracker = Max (node_id ` set db)
    \<and> length offsets = length tracker - 1
    \<and> length db3 = length db2
    \<and> (\<forall>k<length db2.
          if node_id (db2 ! k) = last tracker then db3 ! k = db2 ! k
          else (\<exists>i<length offsets. butlast tracker ! i = node_id (db2 ! k)
                 \<and> db3 ! k = (db2 ! k)\<lparr>timestamp := to_time (timestamp (db2 ! k) + offsets ! i)\<rparr>))"
proof -
  define M where "M = Max (node_id ` set db)"
  from tracker_snoc [OF ne] obtain ns where ns: "tracker = ns @ [M]" "M \<notin> set ns"
    "set ns = node_id ` set db - {M}" unfolding M_def tr by blast
  have last: "tracker ! (length tracker - 1) = M" "last tracker = M" "butlast tracker = ns"
    "length tracker \<noteq> 0"
    using ns(1) by simp_all
  obtain offsets db2 where ol: "offsets_loop M tracker [] (sortByTime db) = (offsets, db2)"
    by (cases "offsets_loop M tracker [] (sortByTime db)")
  have g: "generate_offsets [] tracker (sortByTime db) = Inr (offsets, db2)"
    using last ol by (simp add: generate_offsets_def)
  have lo: "length offsets = length ns"
    using offsets_loop_length [OF ns(2), of "[]" "sortByTime db"] ol ns(1) by simp
  have sub: "set db2 \<subseteq> set db"
    using offsets_loop_set [of M tracker "[]" "sortByTime db"] ol by (simp add: set_sortByTime)
  have idx: "tracker_index (node_id p) tracker = tracker_index (node_id p) ns
             \<and> tracker_index (node_id p) ns < length ns
             \<and> ns ! tracker_index (node_id p) ns = node_id p"
    if "p \<in> set db2" "node_id p \<noteq> M" for p
  proof -
    from that sub have "node_id p \<in> set ns" using ns(3) by auto
    then show ?thesis
      using ns(1) by (simp add: tracker_index_append tracker_index_less tracker_index_nth)
  qed
  define f where "f = (\<lambda>p::DronePlot. if node_id p \<noteq> M
                       then p\<lparr>timestamp := to_time (timestamp p + offsets ! tracker_index (node_id p) tracker)\<rparr>
                       else p)"
  have "\<forall>p\<in>set db2. node_id p \<noteq> M \<longrightarrow> tracker_index (node_id p) tracker < length offsets"
    using idx lo by simp
  then have "correct_loop offsets tracker M db2 = Inr (map f db2)"
    unfolding f_def by (rule correct_loop_map)
  then have c: "correct_timestamps offsets tracker db2 = Inr (map f db2)"
    using last by (simp add: correct_timestamps_def)
  have e: "eventual_consistency db = Inr (map f db2)"
    using g c tr by (simp add: eventual_consistency_def Let_def)
  have t: "tracker = sorted_list_of_set (node_id ` set db)"
    unfolding tr by (rule sorted_tracker)
  have k: "if node_id (db2 ! k) = last tracker then map f db2 ! k = db2 ! k
          else (\<exists>i<length offsets. butlast tracker ! i = node_id (db2 ! k)
                 \<and> map f db2 ! k = (db2 ! k)\<lparr>timestamp := to_time (timestamp (db2 ! k) + offsets ! i)\<rparr>)"
    if "k < length db2" for k
  proof (cases "node_id (db2 ! k) = M")
    case True
    with that last show ?thesis by (simp add: f_def)
  next
    case False
    from that have "db2 ! k \<in> set db2" by simp
    from idx [OF this False] False that last lo show ?thesis
      by (auto simp: f_def intro!: exI [of _ "tracker_index (node_id (db2 ! k)) ns"])
  qed
  have k': "\<forall>k<length db2.
          if node_id (db2 ! k) = last tracker then map f db2 ! k = db2 ! k
          else (\<exists>i<length offsets. butlast tracker ! i = node_id (db2 ! k)
                 \<and> map f db2 ! k = (db2 ! k)\<lparr>timestamp := to_time (timestamp (db2 ! k) + offsets ! i)\<rparr>)"
    using k by blast
  have lt: "length offsets = length tracker - 1" using lo ns(1) by simp
  have ll: "length (map f db2) = length db2" by simp
  have lm: "last tracker = Max (node_id ` set db)" using last(2) by (simp add: M_def)
  from g c e t lm lt ll k' show ?thesis by blast
qed

subsection \<open>A store with one node besides the reference node\<close>

lemma count_node_sortByTime: "count_node m (sortByTime db) = count_node m db"
  by (simp add: count_node_def sortByTime_def filter_sort)

lemma count_node_map:
  "(\<And>p. node_id (f p) = node_id p) \<Longrightarrow> count_node m (map f db) = count_node m db"
  by (induction db) (auto simp: count_node_def)

lemma count_node_erase_same:
  "j < length db \<Longrightarrow> node_id (db ! j) = m \<Longrightarrow> count_node m (erase j db) + 1 = count_node m db"
proof -
  assume a: "j < length db" "node_id (db ! j) = m"
  then have "db = take j db @ db ! j # drop (Suc j) db" by (simp add: id_take_nth_drop)
  then have "count_node m db = count_node m (take j db @ db ! j # drop (Suc j) db)" by simp
  also have "\<dots> = count_node m (erase j db) + 1" using a(2) by (simp add: count_node_def erase_def)
  finally show ?thesis by simp
qed

lemma count_node_erase_other:
  "j < length db \<Longrightarrow> node_id (db ! j) \<noteq> m \<Longrightarrow> count_node m (erase j db) = count_node m db"
proof -
  assume a: "j < length db" "node_id (db ! j) \<noteq> m"
  then have "db = take j db @ db ! j # drop (Suc j) db" by (simp add: id_take_nth_drop)
  then have "count_node m db = count_node m (take j db @ db ! j # drop (Suc j) db)" by simp
  also have "\<dots> = count_node m (erase j db)" using a(2) by (simp add: count_node_def erase_def)
  finally show ?thesis by simp
qed

lemma reconcile_single_node:
  assumes nodes: "node_id ` set db = {n, L}" and less: "n < L"
  shows "\<exists>r. eventual_consistency db = Inr r
     \<and> count_node n r = count_node n db
     \<and> (if has_match n L (sortByTime db)
        then count_node L r + 1 = count_node L db \<and> length r + 1 = length db
        else count_node L r = count_node L db \<and> length r = length db
             \<and> ((\<forall>p\<in>set db. time_t_range (timestamp p)) \<longrightarrow> r = sortByTime db))
     \<and> (\<forall>i j. first_match n L (sortByTime db) i j \<longrightarrow>
          node_id (sortByTime db ! j) = L \<and>
          generate_offsets [] (sort (get_node_count (sortByTime db) [])) (sortByTime db)
            = Inr ([to_int (timestamp (sortByTime db ! j) - timestamp (sortByTime db ! i))],
                   erase j (sortByTime db)) \<and>
          r = map (\<lambda>p. if node_id p \<noteq> L
                        then p\<lparr>timestamp := to_time (timestamp p
                                + to_int (timestamp (sortByTime db ! j) - timestamp (sortByTime db ! i)))\<rparr>
                        else p)
                  (erase j (sortByTime db)))"
proof -
  define xs where "xs = sortByTime db"
  have "sorted_list_of_set (set [n, L]) = [n, L]"
    using less by (intro sorted_list_of_set.idem_if_sorted_distinct) auto
  then have tr: "sort (get_node_count xs []) = [n, L]"
    unfolding xs_def using nodes by (simp add: sorted_tracker insert_commute)
  obtain off db' where oa: "offset_aux n L xs = (off, db')" by (cases "offset_aux n L xs")
  have g: "generate_offsets [] [n, L] xs = Inr ([off], db')"
    using less oa by (simp add: generate_offsets_def)
  have sub: "set db' \<subseteq> set db"
    using set_offset_aux [of n L xs] oa by (simp add: xs_def set_sortByTime)
  define f where "f = (\<lambda>p::DronePlot. if node_id p \<noteq> L
                         then p\<lparr>timestamp := to_time (timestamp p + off)\<rparr> else p)"
  have nid: "node_id p = n \<or> node_id p = L" if "p \<in> set db'" for p
    using that sub nodes by blast
  have "correct_loop [off] [n, L] L db' = Inr (map f db')"
    using nid
  proof (induction db')
    case Nil
    then show ?case by simp
  next
    case (Cons p ps)
    then show ?case by (auto simp: f_def Let_def)
  qed
  then have c: "correct_timestamps [off] [n, L] db' = Inr (map f db')"
    by (simp add: correct_timestamps_def)
  have e: "eventual_consistency db = Inr (map f db')"
    using g c tr by (simp add: eventual_consistency_def Let_def xs_def)
  have fn: "\<And>p. node_id (f p) = node_id p" by (simp add: f_def)
  have cases: "if has_match n L xs
        then count_node L (map f db') + 1 = count_node L db \<and> length (map f db') + 1 = length db
             \<and> count_node n (map f db') = count_node n db
        else count_node L (map f db') = count_node L db \<and> length (map f db') = length db
             \<and> count_node n (map f db') = count_node n db
             \<and> ((\<forall>p\<in>set db. time_t_range (timestamp p)) \<longrightarrow> map f db' = xs)"
  proof (cases "has_match n L xs")
    case False
    then have o: "off = 0" "db' = xs" using offset_aux_no_match [of n L xs] oa by simp_all
    have "map f xs = xs" if "\<forall>p\<in>set db. time_t_range (timestamp p)"
    proof (rule map_idI)
      fix p assume "p \<in> set xs"
      then have "time_t_range (timestamp p)" using that by (simp add: xs_def set_sortByTime)
      then show "f p = p" using o(1) by (simp add: f_def to_time_small)
    qed
    with False o fn show ?thesis
      by (simp add: count_node_map xs_def count_node_sortByTime length_sortByTime)
  next
    case True
    then obtain i j where fm: "first_match n L xs i j" using first_match_exists by blast
    then have j: "j < length xs" "node_id (xs ! j) = L"
      by (simp_all add: first_match_def match_at_def is_dup_def)
    from offset_aux_at_first_match [OF fm] oa have d: "db' = erase j xs" by simp
    have "count_node L db' + 1 = count_node L xs" unfolding d using j by (rule count_node_erase_same)
    moreover have "count_node n db' = count_node n xs"
      unfolding d using j less by (intro count_node_erase_other) auto
    moreover have "length db' + 1 = length xs" unfolding d using j by (simp add: length_erase)
    ultimately show ?thesis using True fn
      by (simp add: count_node_map xs_def count_node_sortByTime length_sortByTime)
  qed
  have cn: "count_node n (map f db') = count_node n db"
    using cases by (auto simp: xs_def count_node_sortByTime split: if_splits)
  have fm: "node_id (xs ! j) = L \<and>
          generate_offsets [] (sort (get_node_count xs [])) xs
            = Inr ([to_int (timestamp (xs ! j) - timestamp (xs ! i))], erase j xs) \<and>
          map f db' = map (\<lambda>p. if node_id p \<noteq> L
                        then p\<lparr>timestamp := to_time (timestamp p
                                + to_int (timestamp (xs ! j) - timestamp (xs ! i)))\<rparr>
                        else p)
                  (erase j xs)" if "first_match n L xs i j" for i j
  proof -
    from that have "node_id (xs ! j) = L" by (simp add: first_match_def match_at_def is_dup_def)
    moreover from offset_aux_at_first_match [OF that] oa
    have "off = to_int (timestamp (xs ! j) - timestamp (xs ! i))" "db' = erase j xs" by simp_all
    ultimately show ?thesis using g tr by (simp add: f_def)
  qed
  from e cn cases fm show ?thesis unfolding xs_def
    by (intro exI [of _ "map f db'"]) (auto split: if_splits)
qed

subsection \<open>Offsets by position in the tracker\<close>

text \<open>
  C7, amended. For a store with records, the tracker is the ascending list of the node ids
  in the store and its last element, the largest id, is the reference node. Offset
  generation returns one offset for each other node, in the order of the tracker.
  Timestamp correction leaves every record of the reference node as it is, and to every
  other record it adds the offset at the position of the record's node in the tracker
  without the reference node, changing no other field. The sum is taken in the 64 bits of
  the timestamp: it is the exact sum whenever that lies between \<open>-2^63\<close> and
  \<open>2^63 - 1\<close>.
\<close>

theorem correct_timestamps_by_position:
  assumes "db \<noteq> []"
    and "tracker = sort (get_node_count (sortByTime db) [])"
  shows "\<exists>offsets db2 db3.
      generate_offsets [] tracker (sortByTime db) = Inr (offsets, db2)
    \<and> correct_timestamps offsets tracker db2 = Inr db3
    \<and> eventual_consistency db = Inr db3
    \<and> tracker = sorted_list_of_set (node_id ` set db)
    \<and> last tracker = Max (node_id ` set db)
    \<and> length offsets = length tracker - 1
    \<and> length db3 = length db2
    \<and> (\<forall>k<length db2.
          if node_id (db2 ! k) = last tracker then db3 ! k = db2 ! k
          else (\<exists>i<length offsets. butlast tracker ! i = node_id (db2 ! k)
                 \<and> db3 ! k = (db2 ! k)\<lparr>timestamp := to_time (timestamp (db2 ! k) + offsets ! i)\<rparr>
                 \<and> (time_t_range (timestamp (db2 ! k) + offsets ! i)
                      \<longrightarrow> db3 ! k = (db2 ! k)\<lparr>timestamp := timestamp (db2 ! k) + offsets ! i\<rparr>)))"
proof -
  from reconcile_nonempty [OF assms] obtain offsets db2 db3 where
    g: "generate_offsets [] tracker (sortByTime db) = Inr (offsets, db2)" and
    c: "correct_timestamps offsets tracker db2 = Inr db3" and
    e: "eventual_consistency db = Inr db3" and
    t: "tracker = sorted_list_of_set (node_id ` set db)" and
    lm: "last tracker = Max (node_id ` set db)" and
    lo: "length offsets = length tracker - 1" and
    ll: "length db3 = length db2" and
    k: "\<forall>k<length db2.
          if node_id (db2 ! k) = last tracker then db3 ! k = db2 ! k
          else (\<exists>i<length offsets. butlast tracker ! i = node_id (db2 ! k)
                 \<and> db3 ! k = (db2 ! k)\<lparr>timestamp := to_time (timestamp (db2 ! k) + offsets ! i)\<rparr>)"
    by blast
  have k2: "\<forall>k<length db2.
          if node_id (db2 ! k) = last tracker then db3 ! k = db2 ! k
          else (\<exists>i<length offsets. butlast tracker ! i = node_id (db2 ! k)
                 \<and> db3 ! k = (db2 ! k)\<lparr>timestamp := to_time (timestamp (db2 ! k) + offsets ! i)\<rparr>
                 \<and> (time_t_range (timestamp (db2 ! k) + offsets ! i)
                      \<longrightarrow> db3 ! k = (db2 ! k)\<lparr>timestamp := timestamp (db2 ! k) + offsets ! i\<rparr>))"
  proof (intro allI impI)
    fix k assume "k < length db2"
    with k have *: "if node_id (db2 ! k) = last tracker then db3 ! k = db2 ! k
          else (\<exists>i<length offsets. butlast tracker ! i = node_id (db2 ! k)
                 \<and> db3 ! k = (db2 ! k)\<lparr>timestamp := to_time (timestamp (db2 ! k) + offsets ! i)\<rparr>)"
      by blast
    show "if node_id (db2 ! k) = last tracker then db3 ! k = db2 ! k
          else (\<exists>i<length offsets. butlast tracker ! i = node_id (db2 ! k)
                 \<and> db3 ! k = (db2 ! k)\<lparr>timestamp := to_time (timestamp (db2 ! k) + offsets ! i)\<rparr>
                 \<and> (time_t_range (timestamp (db2 ! k) + offsets ! i)
                      \<longrightarrow> db3 ! k = (db2 ! k)\<lparr>timestamp := timestamp (db2 ! k) + offsets ! i\<rparr>))"
    proof (cases "node_id (db2 ! k) = last tracker")
      case True
      with * show ?thesis by simp
    next
      case False
      with * obtain i where i: "i < length offsets" "butlast tracker ! i = node_id (db2 ! k)"
        "db3 ! k = (db2 ! k)\<lparr>timestamp := to_time (timestamp (db2 ! k) + offsets ! i)\<rparr>"
        by auto
      have "time_t_range (timestamp (db2 ! k) + offsets ! i)
            \<longrightarrow> db3 ! k = (db2 ! k)\<lparr>timestamp := timestamp (db2 ! k) + offsets ! i\<rparr>"
        using i(3) by (simp add: to_time_small)
      with i False show ?thesis by auto
    qed
  qed
  from g c e t lm lo ll k2 show ?thesis by blast
qed

theorem correct_timestamps_by_position_witness:
  "sort (get_node_count (sortByTime
      [new_plot 5 3 100 1 1, new_plot 5 1 90 1 1, new_plot 6 2 40 2 2, new_plot 6 3 70 2 2,
       new_plot 7 2 10 3 3]) []) = [1, 2, 3]
   \<and> generate_offsets [] [1, 2, 3] (sortByTime
      [new_plot 5 3 100 1 1, new_plot 5 1 90 1 1, new_plot 6 2 40 2 2, new_plot 6 3 70 2 2,
       new_plot 7 2 10 3 3])
     = Inr ([10, 30], [new_plot 7 2 10 3 3, new_plot 6 2 40 2 2, new_plot 5 1 90 1 1])
   \<and> (\<exists>offsets db2 db3.
      generate_offsets [] [1, 2, 3] (sortByTime
        [new_plot 5 3 100 1 1, new_plot 5 1 90 1 1, new_plot 6 2 40 2 2, new_plot 6 3 70 2 2,
         new_plot 7 2 10 3 3]) = Inr (offsets, db2)
    \<and> correct_timestamps offsets [1, 2, 3] db2 = Inr db3
    \<and> eventual_consistency
        [new_plot 5 3 100 1 1, new_plot 5 1 90 1 1, new_plot 6 2 40 2 2, new_plot 6 3 70 2 2,
         new_plot 7 2 10 3 3] = Inr db3
    \<and> length offsets = length [1, 2, 3 :: nat] - 1
    \<and> length db3 = length db2)"
proof -
  let ?db = "[new_plot 5 3 100 1 1, new_plot 5 1 90 1 1, new_plot 6 2 40 2 2, new_plot 6 3 70 2 2,
       new_plot 7 2 10 3 3]"
  have ne: "?db \<noteq> []" by simp
  have tr: "[1, 2, 3] = sort (get_node_count (sortByTime ?db) [])"
    by (simp add: sortByTime_def new_plot_def)
  have g: "generate_offsets [] [1, 2, 3] (sortByTime ?db)
     = Inr ([10, 30], [new_plot 7 2 10 3 3, new_plot 6 2 40 2 2, new_plot 5 1 90 1 1])"
    by (simp add: generate_offsets_def sortByTime_def new_plot_def is_dup_def to_int_def)
  from correct_timestamps_by_position [OF ne tr]
  obtain offsets db2 db3 where
    "generate_offsets [] [1, 2, 3] (sortByTime ?db) = Inr (offsets, db2)"
    "correct_timestamps offsets [1, 2, 3] db2 = Inr db3"
    "eventual_consistency ?db = Inr db3"
    "length offsets = length [1, 2, 3 :: nat] - 1"
    "length db3 = length db2"
    by blast
  then have "\<exists>offsets db2 db3.
      generate_offsets [] [1, 2, 3] (sortByTime ?db) = Inr (offsets, db2)
    \<and> correct_timestamps offsets [1, 2, 3] db2 = Inr db3
    \<and> eventual_consistency ?db = Inr db3
    \<and> length offsets = length [1, 2, 3 :: nat] - 1
    \<and> length db3 = length db2"
    by blast
  with tr [symmetric] g show ?thesis by (intro conjI)
qed

text \<open>
  The claim as stated, with the sum of timestamp and offset taken exactly, fails at the
  end of the range of the timestamp: node 1 gets the offset 50, and its record with
  timestamp \<open>2^63 - 1\<close> is left with \<open>-2^63 + 49\<close>, not with \<open>2^63 + 49\<close>.
\<close>

theorem correct_timestamps_wraps_counterexample:
  "eventual_consistency
     [new_plot 5 1 100 1 1, new_plot 5 2 150 1 1, new_plot 6 1 9223372036854775807 2 2]
     = Inr [new_plot 5 1 150 1 1, new_plot 6 1 (- 9223372036854775759) 2 2]
   \<and> generate_offsets [] [1, 2] (sortByTime
       [new_plot 5 1 100 1 1, new_plot 5 2 150 1 1, new_plot 6 1 9223372036854775807 2 2])
     = Inr ([50], [new_plot 5 1 100 1 1, new_plot 6 1 9223372036854775807 2 2])
   \<and> timestamp (new_plot 6 1 9223372036854775807 2 2) + 50 = 9223372036854775857"
  by (simp add: eventual_consistency_def sortByTime_def generate_offsets_def
      correct_timestamps_def is_dup_def new_plot_def to_int_def to_time_def)

subsection \<open>The empty store\<close>

text \<open>
  C10. On a store without records the tracker is empty, and offset generation and
  timestamp correction both read the element at index \<open>size - 1\<close> of the empty tracker,
  past its end; so does reconciliation as a whole. Reconciliation returns a store
  exactly when the store it is given has a record.
\<close>

theorem eventual_consistency_empty_store:
  "get_node_count (sortByTime []) [] = []
   \<and> sort (get_node_count (sortByTime []) []) = []
   \<and> generate_offsets offsets [] db = Inl OutOfBounds
   \<and> correct_timestamps offsets [] db = Inl OutOfBounds
   \<and> eventual_consistency [] = Inl OutOfBounds
   \<and> ((\<exists>db'. eventual_consistency db = Inr db') \<longleftrightarrow> db \<noteq> [])"
proof -
  have "\<exists>db'. eventual_consistency db = Inr db'" if "db \<noteq> []"
    using reconcile_nonempty [OF that refl] by blast
  moreover have "eventual_consistency [] = Inl OutOfBounds"
    by (simp add: eventual_consistency_def sortByTime_def generate_offsets_def)
  ultimately have "(\<exists>db'. eventual_consistency db = Inr db') \<longleftrightarrow> db \<noteq> []"
    by (cases "db = []") auto
  then show ?thesis
    by (simp add: eventual_consistency_def sortByTime_def generate_offsets_def
        correct_timestamps_def)
qed

subsection \<open>Three records of one node and two of the reference node\<close>

text \<open>
  C4, amended. In a store whose records belong to one node \<open>n\<close> and to the reference node
  \<open>L\<close>, reconciliation removes no record of \<open>n\<close> and at most one record of the reference
  node: exactly one when, in the store sorted by time, some record of \<open>n\<close> has a record of
  the reference node with the same latitude and longitude after it, and none otherwise.
  When it removes one, the record removed and the offset, the one entry of the table of
  offsets, which is added to the records of \<open>n\<close> in the 64 bits of their timestamps,
  are those of the first such pair met by a forward scan of the sorted store. When it
  removes none, the offset is 0 and a store whose timestamps are \<^verbatim>\<open>time_t\<close> values
  is left as sorted.
\<close>

theorem reconciliation_single_node:
  assumes "node_id ` set db = {n, L}" and "n < L"
  shows "\<exists>r. eventual_consistency db = Inr r
     \<and> count_node n r = count_node n db
     \<and> (if has_match n L (sortByTime db)
        then count_node L r + 1 = count_node L db \<and> length r + 1 = length db
        else count_node L r = count_node L db \<and> length r = length db
             \<and> ((\<forall>p\<in>set db. time_t_range (timestamp p)) \<longrightarrow> r = sortByTime db))
     \<and> (\<forall>i j. first_match n L (sortByTime db) i j \<longrightarrow>
          node_id (sortByTime db ! j) = L \<and>
          generate_offsets [] (sort (get_node_count (sortByTime db) [])) (sortByTime db)
            = Inr ([to_int (timestamp (sortByTime db ! j) - timestamp (sortByTime db ! i))],
                   erase j (sortByTime db)) \<and>
          r = map (\<lambda>p. if node_id p \<noteq> L
                        then p\<lparr>timestamp := to_time (timestamp p
                                + to_int (timestamp (sortByTime db ! j) - timestamp (sortByTime db ! i)))\<rparr>
                        else p)
                  (erase j (sortByTime db)))"
  using assms by (rule reconcile_single_node)

theorem reconciliation_single_node_witness:
  "first_match 1 2 (sortByTime
      [new_plot 5 2 150 1 1, new_plot 7 1 300 3 3, new_plot 5 1 100 1 1, new_plot 6 2 130 2 2,
       new_plot 6 1 120 2 2]) 0 3
   \<and> count_node 1 [new_plot 5 2 150 1 1, new_plot 7 1 300 3 3, new_plot 5 1 100 1 1,
        new_plot 6 2 130 2 2, new_plot 6 1 120 2 2] = 3
   \<and> count_node 2 [new_plot 5 2 150 1 1, new_plot 7 1 300 3 3, new_plot 5 1 100 1 1,
        new_plot 6 2 130 2 2, new_plot 6 1 120 2 2] = 2
   \<and> eventual_consistency
      [new_plot 5 2 150 1 1, new_plot 7 1 300 3 3, new_plot 5 1 100 1 1, new_plot 6 2 130 2 2,
       new_plot 6 1 120 2 2]
     = Inr [new_plot 5 1 150 1 1, new_plot 6 1 170 2 2, new_plot 6 2 130 2 2,
            new_plot 7 1 350 3 3]"
proof -
  let ?db = "[new_plot 5 2 150 1 1, new_plot 7 1 300 3 3, new_plot 5 1 100 1 1,
              new_plot 6 2 130 2 2, new_plot 6 1 120 2 2]"
  have s: "sortByTime ?db = [new_plot 5 1 100 1 1, new_plot 6 1 120 2 2, new_plot 6 2 130 2 2,
              new_plot 5 2 150 1 1, new_plot 7 1 300 3 3]"
    by (simp add: sortByTime_def new_plot_def)
  have nodes: "node_id ` set ?db = {1, 2}" by (auto simp: new_plot_def)
  have less: "(1::nat) < 2" by simp
  have fm: "first_match 1 2 (sortByTime ?db) 0 3"
    unfolding s
    by (simp add: first_match_def match_at_def is_dup_def new_plot_def lessThan_Suc numeral_eq_Suc)
  from reconciliation_single_node [OF nodes less] obtain r where
    r: "eventual_consistency ?db = Inr r" and
    a: "\<forall>i j. first_match 1 2 (sortByTime ?db) i j \<longrightarrow>
          node_id (sortByTime ?db ! j) = 2 \<and>
          generate_offsets [] (sort (get_node_count (sortByTime ?db) [])) (sortByTime ?db)
            = Inr ([to_int (timestamp (sortByTime ?db ! j) - timestamp (sortByTime ?db ! i))],
                   erase j (sortByTime ?db)) \<and>
          r = map (\<lambda>p. if node_id p \<noteq> 2
                        then p\<lparr>timestamp := to_time (timestamp p
                                + to_int (timestamp (sortByTime ?db ! j) - timestamp (sortByTime ?db ! i)))\<rparr>
                        else p)
                  (erase j (sortByTime ?db))"
    by blast
  from a fm have "r = map (\<lambda>p. if node_id p \<noteq> 2
                        then p\<lparr>timestamp := to_time (timestamp p
                                + to_int (timestamp (sortByTime ?db ! 3) - timestamp (sortByTime ?db ! 0)))\<rparr>
                        else p)
                  (erase 3 (sortByTime ?db))" by blast
  then have "r = [new_plot 5 1 150 1 1, new_plot 6 1 170 2 2, new_plot 6 2 130 2 2,
            new_plot 7 1 350 3 3]"
    unfolding s by (simp add: erase_def new_plot_def to_int_def to_time_def)
  with r have e: "eventual_consistency ?db = Inr [new_plot 5 1 150 1 1, new_plot 6 1 170 2 2,
      new_plot 6 2 130 2 2, new_plot 7 1 350 3 3]" by simp
  have c: "count_node 1 ?db = 3" "count_node 2 ?db = 2"
    by (simp_all add: count_node_def new_plot_def)
  from fm c e show ?thesis by (intro conjI)
qed

text \<open>
  The claim as stated fails when the records of the reference node stand before the
  records they match: node 1 has three records, two of them at the places of the two
  records of node 2, and reconciliation removes nothing.
\<close>

theorem reconciliation_removes_none_counterexample:
  "eventual_consistency
      [new_plot 5 2 50 1 1, new_plot 5 1 100 1 1, new_plot 6 2 150 2 2, new_plot 6 1 200 2 2,
       new_plot 7 1 300 3 3]
     = Inr [new_plot 5 2 50 1 1, new_plot 5 1 100 1 1, new_plot 6 2 150 2 2,
            new_plot 6 1 200 2 2, new_plot 7 1 300 3 3]
   \<and> count_node 2 [new_plot 5 2 50 1 1, new_plot 5 1 100 1 1, new_plot 6 2 150 2 2,
                    new_plot 6 1 200 2 2, new_plot 7 1 300 3 3] = 2
   \<and> count_node 1 [new_plot 5 2 50 1 1, new_plot 5 1 100 1 1, new_plot 6 2 150 2 2,
                    new_plot 6 1 200 2 2, new_plot 7 1 300 3 3] = 3
   \<and> is_dup 2 (new_plot 5 1 100 1 1) (new_plot 5 2 50 1 1)
   \<and> is_dup 2 (new_plot 6 1 200 2 2) (new_plot 6 2 150 2 2)"
  by (simp add: eventual_consistency_def sortByTime_def generate_offsets_def
      correct_timestamps_def is_dup_def new_plot_def count_node_def to_time_def)

subsection \<open>The ingestion loop\<close>

lemma map_upt_from_0: "map F [0..<Suc k] = F 0 # map (\<lambda>i. F (Suc i)) [0..<k]"
proof -
  have "[0..<Suc k] = 0 # map Suc [0..<k]"
    by (simp add: upt_conv_Cons map_Suc_upt del: upt_Suc)
  then show ?thesis by (simp add: comp_def del: upt_Suc)
qed

lemma decoded_drop: "decoded c (drop (getDataSize c) rest) i = decoded c rest (Suc i)"
  by (simp add: decoded_def add.commute)

lemma addSingleDronePlot_decoded:
  "addSingleDronePlot c (take (getDataSize c) rest) db = db @ [decoded c rest 0]"
  by (simp add: addSingleDronePlot_def addPlot_def decoded_def Let_def)

lemma add_loop_fits:
  "k * getDataSize c \<le> length rest \<Longrightarrow>
   add_loop c k rest db = (None, db @ map (decoded c rest) [0..<k])"
proof (induction k arbitrary: rest db)
  case 0
  then show ?case by simp
next
  case (Suc k)
  have "k * getDataSize c \<le> length (drop (getDataSize c) rest)" using Suc.prems by simp
  from Suc.IH [OF this] Suc.prems show ?case
    by (simp add: addSingleDronePlot_decoded map_upt_from_0 decoded_drop del: upt_Suc)
qed

lemma add_loop_past_end:
  "0 < getDataSize c \<Longrightarrow> length rest < k * getDataSize c \<Longrightarrow>
   add_loop c k rest db
     = (Some OutOfBounds, db @ map (decoded c rest) [0..<length rest div getDataSize c])"
proof (induction k arbitrary: rest db)
  case 0
  then show ?case by simp
next
  case (Suc k)
  show ?case
  proof (cases "length rest < getDataSize c")
    case True
    then show ?thesis by simp
  next
    case False
    then have d: "length rest div getDataSize c
                  = Suc (length (drop (getDataSize c) rest) div getDataSize c)"
      using Suc.prems(1) by (simp add: le_div_geq)
    have "length (drop (getDataSize c) rest) < k * getDataSize c"
      using Suc.prems False by simp
    from Suc.IH [OF Suc.prems(1) this] False show ?thesis
      unfolding d
      by (simp add: addSingleDronePlot_decoded map_upt_from_0 decoded_drop del: upt_Suc)
  qed
qed

subsection \<open>Payloads that are refused\<close>

text \<open>
  C5. Ingestion of a payload shorter than 4 bytes fails with \<open>TruncatedBatch\<close>, and
  ingestion of a payload of at least 4 bytes whose length minus 4 is not a multiple of the
  record size fails with \<open>MisalignedBatch\<close>; in both cases the store is as it was.
\<close>

theorem addReplDronePlots_rejects:
  "(length data < 4 \<longrightarrow> addReplDronePlots c data db = (Some TruncatedBatch, db))
   \<and> (0 < getDataSize c \<and> 4 \<le> length data \<and> (length data - 4) mod getDataSize c \<noteq> 0
        \<longrightarrow> addReplDronePlots c data db = (Some MisalignedBatch, db))"
  by (simp add: addReplDronePlots_def)

theorem addReplDronePlots_rejects_witness:
  "addReplDronePlots example_codec [1, 0, 0] [new_plot 1 1 5 1 1]
     = (Some TruncatedBatch, [new_plot 1 1 5 1 1])
   \<and> addReplDronePlots example_codec [1, 0, 0, 0, 9] [new_plot 1 1 5 1 1]
     = (Some MisalignedBatch, [new_plot 1 1 5 1 1])"
proof -
  have "addReplDronePlots example_codec [1, 0, 0] [new_plot 1 1 5 1 1]
     = (Some TruncatedBatch, [new_plot 1 1 5 1 1])"
    using addReplDronePlots_rejects [of "[1, 0, 0]" example_codec "[new_plot 1 1 5 1 1]"]
    by simp
  moreover have "addReplDronePlots example_codec [1, 0, 0, 0, 9] [new_plot 1 1 5 1 1]
     = (Some MisalignedBatch, [new_plot 1 1 5 1 1])"
    using addReplDronePlots_rejects [of "[1, 0, 0, 0, 9]" example_codec "[new_plot 1 1 5 1 1]"]
    by (simp add: example_codec_def)
  ultimately show ?thesis by (rule conjI)
qed

subsection \<open>The count of a payload is not checked against its length\<close>

text \<open>
  C9. For a payload that passes both length checks, ingestion runs as many iterations as
  the count in the first four bytes says, whatever the length of the payload. When the
  records counted fit in the payload, exactly that many records are added, one for each
  slot in order. When the count times the record size exceeds the length minus 4, the
  records that fit are added and the next extraction reads past the end of the payload.
\<close>

theorem addReplDronePlots_trusts_count:
  assumes "4 \<le> length data" and "(length data - 4) mod getDataSize c = 0"
    and "0 < getDataSize c"
  shows "(read_count data * getDataSize c \<le> length data - 4 \<longrightarrow>
            addReplDronePlots c data db
              = (None, db @ map (decoded c (drop 4 data)) [0..<read_count data]))
       \<and> (length data - 4 < read_count data * getDataSize c \<longrightarrow>
            addReplDronePlots c data db
              = (Some OutOfBounds,
                 db @ map (decoded c (drop 4 data)) [0..<(length data - 4) div getDataSize c]))"
  using assms
  by (simp add: addReplDronePlots_def add_loop_fits add_loop_past_end)

theorem addReplDronePlots_trusts_count_witness:
  "addReplDronePlots example_codec [2, 0, 0, 0, 7, 9] []
     = (Some OutOfBounds, [new_plot 0 7 9 0 0])
   \<and> addReplDronePlots example_codec [1, 0, 0, 0, 7, 9, 8, 8] []
     = (None, [new_plot 0 7 9 0 0])"
proof -
  have "addReplDronePlots example_codec [2, 0, 0, 0, 7, 9] []
     = (Some OutOfBounds, [] @ map (decoded example_codec (drop 4 [2, 0, 0, 0, 7, 9]))
          [0..<(length [2, 0, 0, 0, 7, 9 :: byte] - 4) div getDataSize example_codec])"
    using addReplDronePlots_trusts_count [of "[2, 0, 0, 0, 7, 9]" example_codec "[]"]
    by (simp add: example_codec_def read_count_def)
  then have a: "addReplDronePlots example_codec [2, 0, 0, 0, 7, 9] []
     = (Some OutOfBounds, [new_plot 0 7 9 0 0])"
    by (simp add: example_codec_def decoded_def)
  have "addReplDronePlots example_codec [1, 0, 0, 0, 7, 9, 8, 8] []
     = (None, [] @ map (decoded example_codec (drop 4 [1, 0, 0, 0, 7, 9, 8, 8]))
          [0..<read_count [1, 0, 0, 0, 7, 9, 8, 8]])"
    using addReplDronePlots_trusts_count [of "[1, 0, 0, 0, 7, 9, 8, 8]" example_codec "[]"]
    by (simp add: example_codec_def read_count_def)
  then have b: "addReplDronePlots example_codec [1, 0, 0, 0, 7, 9, 8, 8] []
     = (None, [new_plot 0 7 9 0 0])"
    by (simp add: example_codec_def decoded_def read_count_def)
  from a b show ?thesis by (rule conjI)
qed

subsection \<open>The broadcast scan\<close>

lemma scan_new_fixed_width:
  "fixed_width c \<Longrightarrow> length marshall_data mod getDataSize c = 0 \<Longrightarrow>
   scan_new c db marshall_data count
     = (None, map (\<lambda>p. p\<lparr>dbflag_new := False\<rparr>) db,
        marshall_data @ concat (map (serialize c) (filter dbflag_new db)),
        count + length (filter dbflag_new db))"
proof (induction db arbitrary: marshall_data count)
  case Nil
  then show ?case by simp
next
  case (Cons p ps)
  have w: "length (serialize c p) = getDataSize c" using Cons.prems(1) by (simp add: fixed_width_def)
  show ?case
  proof (cases "dbflag_new p")
    case True
    have m: "length (marshall_data @ serialize c p) mod getDataSize c = 0"
      using Cons.prems(2) w by simp
    from Cons.IH [OF Cons.prems(1) m, of "count + 1"] True m show ?thesis by simp
  next
    case False
    from Cons.IH [OF Cons.prems, of count] False Cons.prems(2) show ?thesis by simp
  qed
qed

lemma queueNewPlots_fixed_width:
  assumes "fixed_width c"
  shows "queueNewPlots c s
     = (Inr (length (filter dbflag_new (plotdb s))),
        s\<lparr>plotdb := map (\<lambda>p. p\<lparr>dbflag_new := False\<rparr>) (plotdb s),
          outbox := (if filter dbflag_new (plotdb s) = [] then outbox s
                     else outbox s @ [count_bytes (length (filter dbflag_new (plotdb s)))
                                       @ concat (map (serialize c) (filter dbflag_new (plotdb s)))])\<rparr>)"
proof -
  have "scan_new c (plotdb s) [] 0
     = (None, map (\<lambda>p. p\<lparr>dbflag_new := False\<rparr>) (plotdb s),
        [] @ concat (map (serialize c) (filter dbflag_new (plotdb s))),
        0 + length (filter dbflag_new (plotdb s)))"
    using assms by (intro scan_new_fixed_width) simp_all
  then show ?thesis
    by (simp add: queueNewPlots_def count_bytes_def)
qed


subsection \<open>The flags after a broadcast scan\<close>

text \<open>
  C6. After \<^verbatim>\<open>queueNewPlots\<close> the store has the same records in the same order;
  no record carries the replicated-pending flag; a record that did not carry it is the
  same in every field; and a record that carried it differs in the flag alone.
\<close>

theorem queueNewPlots_clears_flags:
  assumes "fixed_width c"
  shows "fst (queueNewPlots c s) = Inr (length (filter dbflag_new (plotdb s)))
     \<and> length (plotdb (snd (queueNewPlots c s))) = length (plotdb s)
     \<and> (\<forall>i<length (plotdb s).
           \<not> dbflag_new (plotdb (snd (queueNewPlots c s)) ! i)
         \<and> (\<not> dbflag_new (plotdb s ! i)
              \<longrightarrow> plotdb (snd (queueNewPlots c s)) ! i = plotdb s ! i)
         \<and> plotdb (snd (queueNewPlots c s)) ! i = (plotdb s ! i)\<lparr>dbflag_new := False\<rparr>)"
  by (simp add: queueNewPlots_fixed_width [OF assms])


theorem queueNewPlots_clears_flags_witness:
  "fixed_width example_codec
   \<and> queueNewPlots example_codec
       \<lparr>plotdb = [new_plot 1 1 5 1 1, (new_plot 2 3 6 2 2)\<lparr>dbflag_new := False\<rparr>,
                  new_plot 3 2 7 3 3],
        last_repl = 0, outbox = []\<rparr>
     = (Inr 2,
        \<lparr>plotdb = [(new_plot 1 1 5 1 1)\<lparr>dbflag_new := False\<rparr>,
                  (new_plot 2 3 6 2 2)\<lparr>dbflag_new := False\<rparr>,
                  (new_plot 3 2 7 3 3)\<lparr>dbflag_new := False\<rparr>],
         last_repl = 0, outbox = [[2, 0, 0, 0, 1, 5, 2, 7]]\<rparr>)"
proof -
  let ?s = "\<lparr>plotdb = [new_plot 1 1 5 1 1, (new_plot 2 3 6 2 2)\<lparr>dbflag_new := False\<rparr>,
                  new_plot 3 2 7 3 3],
        last_repl = 0, outbox = []\<rparr>"
  have fw: "fixed_width example_codec" by (simp add: fixed_width_def example_codec_def)
  have "fst (queueNewPlots example_codec ?s) = Inr (length (filter dbflag_new (plotdb ?s)))"
    using queueNewPlots_clears_flags [OF fw, of ?s] by blast
  then have "fst (queueNewPlots example_codec ?s) = Inr 2" by (simp add: new_plot_def)
  moreover have "snd (queueNewPlots example_codec ?s)
     = \<lparr>plotdb = [(new_plot 1 1 5 1 1)\<lparr>dbflag_new := False\<rparr>,
                  (new_plot 2 3 6 2 2)\<lparr>dbflag_new := False\<rparr>,
                  (new_plot 3 2 7 3 3)\<lparr>dbflag_new := False\<rparr>],
         last_repl = 0, outbox = [[2, 0, 0, 0, 1, 5, 2, 7]]\<rparr>"
    by (simp add: queueNewPlots_def new_plot_def example_codec_def count_bytes_def)
  ultimately have "queueNewPlots example_codec ?s
     = (Inr 2,
        \<lparr>plotdb = [(new_plot 1 1 5 1 1)\<lparr>dbflag_new := False\<rparr>,
                  (new_plot 2 3 6 2 2)\<lparr>dbflag_new := False\<rparr>,
                  (new_plot 3 2 7 3 3)\<lparr>dbflag_new := False\<rparr>],
         last_repl = 0, outbox = [[2, 0, 0, 0, 1, 5, 2, 7]]\<rparr>)"
    by (simp add: prod_eq_iff)
  with fw show ?thesis by (rule conjI)
qed

subsection \<open>What ingestion leaves of the store\<close>






subsection \<open>The broadcast decision of an iteration\<close>



end
